theory Spec2Isabelle
  imports Main "HOL-Library.Product_Lexorder" "HOL-Library.Multiset"
begin

section \<open>Dates and durations\<close>

text \<open>
  A naive \<open>datetime\<close> is the number of microseconds since 0001-01-01T00:00:00 (microsecond
  is the resolution of Python's \<open>datetime\<close>), a \<open>timedelta\<close> a number of microseconds.
  The notebook passes naive UTC timestamps, and the \<open>pickup_datetime\<close> column of the
  loaded tables is timezone-naive too, so timestamps of events live on the same axis.
\<close>

type_synonym datetime = int
type_synonym timedelta = int

definition US_PER_SECOND :: int where "US_PER_SECOND = 1000000"
definition US_PER_HOUR :: int where "US_PER_HOUR = 3600 * US_PER_SECOND"
definition US_PER_DAY :: int where "US_PER_DAY = 24 * US_PER_HOUR"

text \<open>\<open>date(9999, 12, 31).toordinal()\<close>\<close>

definition MAXORDINAL :: int where "MAXORDINAL = 3652059"

subsection \<open>The proleptic Gregorian calendar of the \<open>datetime\<close> module\<close>

text \<open>
  The attributes \<open>.year\<close> and \<open>.month\<close> of a datetime follow the calendar arithmetic of
  the standard library (\<open>_is_leap\<close>, \<open>_days_before_year\<close>, \<open>_days_in_month\<close>,
  \<open>_days_before_month\<close>, \<open>_ymd2ord\<close>, \<open>_ord2ymd\<close>); \<open>divmod\<close> and \<open>//\<close> of Python floor as
  \<open>div\<close> and \<open>mod\<close> on \<open>int\<close> do.
\<close>

text \<open>\<open>y % 4 == 0 and (y % 100 != 0 or y % 400 == 0)\<close>\<close>

definition is_leap :: "int \<Rightarrow> bool" where
  "is_leap y = (y mod 4 = 0 \<and> (if y mod 100 = 0 then y mod 400 = 0 else True))"

definition days_before_year :: "int \<Rightarrow> int" where
  "days_before_year y = (let z = y - 1 in z * 365 + z div 4 - z div 100 + z div 400)"

definition DAYS_IN_MONTH :: "int list" where
  "DAYS_IN_MONTH = [-1, 31, 28, 31, 30, 31, 30, 31, 31, 30, 31, 30, 31]"

definition DAYS_BEFORE_MONTH :: "int list" where
  "DAYS_BEFORE_MONTH = [-1, 0, 31, 59, 90, 120, 151, 181, 212, 243, 273, 304, 334]"

definition days_in_month :: "int \<Rightarrow> int \<Rightarrow> int" where
  "days_in_month y m = (if m = 2 \<and> is_leap y then 29 else DAYS_IN_MONTH ! nat m)"

definition days_before_month :: "int \<Rightarrow> int \<Rightarrow> int" where
  "days_before_month y m = DAYS_BEFORE_MONTH ! nat m + (if m > 2 \<and> is_leap y then 1 else 0)"

definition ymd2ord :: "int \<Rightarrow> int \<Rightarrow> int \<Rightarrow> int" where
  "ymd2ord y m d = days_before_year y + days_before_month y m + d"

definition DI400Y :: int where "DI400Y = 146097"
definition DI100Y :: int where "DI100Y = 36524"
definition DI4Y :: int where "DI4Y = 1461"

text \<open>The tail of \<open>_ord2ymd\<close>: month and day from the day of the year \<open>n\<close> (from 0), by an
  estimate of the month that is corrected when it is one too large.\<close>

definition month_day :: "bool \<Rightarrow> int \<Rightarrow> int \<times> int" where
  "month_day leapyear n =
     (let m = (n + 50) div 32;
          preceding = DAYS_BEFORE_MONTH ! nat m + (if m > 2 \<and> leapyear then 1 else 0)
      in if preceding > n
         then let m' = m - 1;
                  preceding' = preceding
                    - (DAYS_IN_MONTH ! nat m' + (if m' = 2 \<and> leapyear then 1 else 0))
              in (m', n - preceding' + 1)
         else (m, n - preceding + 1))"

definition ord2ymd :: "int \<Rightarrow> int \<times> int \<times> int" where
  "ord2ymd ordinal =
     (let n = ordinal - 1;
          n400 = n div DI400Y; n = n mod DI400Y;
          y = n400 * 400 + 1;
          n100 = n div DI100Y; n = n mod DI100Y;
          n4 = n div DI4Y; n = n mod DI4Y;
          n1 = n div 365; n = n mod 365;
          y = y + n100 * 100 + n4 * 4 + n1
      in if n1 = 4 \<or> n100 = 4 then (y - 1, 12, 31)
         else
           let leapyear = (n1 = 3 \<and> (n4 \<noteq> 24 \<or> n100 = 3))
           in (y, month_day leapyear n))"

definition toordinal :: "datetime \<Rightarrow> int" where
  "toordinal d = d div US_PER_DAY + 1"

definition year :: "datetime \<Rightarrow> int" where
  "year d = fst (ord2ymd (toordinal d))"

definition month :: "datetime \<Rightarrow> int" where
  "month d = fst (snd (ord2ymd (toordinal d)))"

text \<open>
  \<open>datetime(y, m, d, hh, mm, ss)\<close> for fields in range (the constructor raises on others, and
  is only applied to literal dates here).
\<close>

definition mk_datetime :: "int \<Rightarrow> int \<Rightarrow> int \<Rightarrow> int \<Rightarrow> int \<Rightarrow> int \<Rightarrow> datetime" where
  "mk_datetime y m d hh mm ss =
     (ymd2ord y m d - 1) * US_PER_DAY + hh * US_PER_HOUR + mm * (60 * US_PER_SECOND)
       + ss * US_PER_SECOND"

text \<open>\<open>timedelta(weeks=w)\<close>\<close>

definition timedelta_weeks :: "int \<Rightarrow> timedelta" where
  "timedelta_weeks w = w * 7 * US_PER_DAY"

text \<open>The values a \<open>datetime\<close> object can hold: 0001-01-01T00:00:00 to
  9999-12-31T23:59:59.999999.\<close>

definition is_datetime :: "int \<Rightarrow> bool" where
  "is_datetime d = (0 \<le> d \<and> d < MAXORDINAL * US_PER_DAY)"

section \<open>Errors\<close>

text \<open>
  Exceptions are values: the two \<open>ValueError\<close>s of the validation (and the one
  \<open>datetime.fromisoformat\<close> raises) carry their message, \<open>TypeError\<close> is what comparing a
  timezone-aware with a naive datetime raises, \<open>OverflowError\<close> is what datetime arithmetic
  raises when the result leaves years 1..9999, and the loader may raise anything.
\<close>

datatype error = ValueError string | TypeError string | OverflowError | OtherError string

text \<open>\<open>datetime - timedelta\<close> and \<open>datetime + timedelta\<close>: the result's ordinal must lie in
  \<open>1..MAXORDINAL\<close>.\<close>

definition dt_add :: "datetime \<Rightarrow> timedelta \<Rightarrow> error + datetime" where
  "dt_add d td =
     (let r = d + td; days = r div US_PER_DAY + 1
      in if 0 < days \<and> days \<le> MAXORDINAL then Inr r else Inl OverflowError)"

definition dt_sub :: "datetime \<Rightarrow> timedelta \<Rightarrow> error + datetime" where
  "dt_sub d td = dt_add d (- td)"

section \<open>Sampling a batch of raw rides: \<open>fetch_batch_raw_data\<close>\<close>

text \<open>
  A row of the rides table: the two columns the loader returns. A table is the list of its
  rows in order; the index labels of the data frame carry no information the function uses
  and are left out. A timestamp of the column is an instant on the axis of \<open>datetime\<close>; the
  narrower range of the column's 64-bit representation is not modelled.
\<close>

record ride =
  pickup_datetime :: int
  pickup_location_id :: int

text \<open>
  A \<open>datetime\<close> object is naive or timezone-aware: \<open>Naive d\<close> has the fields \<open>d\<close> and no
  \<open>tzinfo\<close>; \<open>Aware d off\<close> has the fields (the wall clock) \<open>d\<close> and a \<open>tzinfo\<close> of the fixed
  UTC offset \<open>off\<close>, in microseconds, as the aware datetimes that \<open>datetime.fromisoformat\<close>
  returns. The attributes \<open>.year\<close> and \<open>.month\<close> and the arithmetic with a \<open>timedelta\<close> read and
  change the fields only.
\<close>

datatype pydatetime = Naive datetime | Aware datetime int

fun wall_clock :: "pydatetime \<Rightarrow> datetime" where
  "wall_clock (Naive d) = d"
| "wall_clock (Aware d off) = d"

text \<open>
  \<open>a >= b\<close> on datetime objects: two naive ones compare by their fields, two aware ones by
  their instants (fields minus offset), and a naive with an aware one raises \<open>TypeError\<close>.
\<close>

definition datetime_ge :: "pydatetime \<Rightarrow> pydatetime \<Rightarrow> error + bool" where
  "datetime_ge a b =
     (case (a, b) of
        (Naive x, Naive y) \<Rightarrow> Inr (x \<ge> y)
      | (Aware x ox, Aware y oy) \<Rightarrow> Inr (x - ox \<ge> y - oy)
      | _ \<Rightarrow> Inl (TypeError ''can't compare offset-naive and offset-aware datetimes''))"

text \<open>
  An argument of \<open>fetch_batch_raw_data\<close>: a string, a datetime, or any other object
  (the annotation \<open>Union[datetime, str]\<close> is not enforced by Python).
\<close>

datatype pyobj = Str string | Datetime pydatetime | Other

text \<open>
  \<open>load_and_process_taxi_data(year, months)\<close> is imported from \<open>src.data_utils\<close>; it is a
  parameter of the model. It reads and writes files and may raise, so it takes the state
  of the outside world and returns the new one with its result.
\<close>

type_synonym 'w loader = "int \<Rightarrow> int list \<Rightarrow> 'w \<Rightarrow> (error + ride list) \<times> 'w"

text \<open>
  \<open>if isinstance(x, str): x = datetime.fromisoformat(x)\<close>. The parser of the standard
  library is a parameter: \<open>None\<close> where it raises \<open>ValueError\<close>. Its message, which goes on
  to quote the string, is cut after the fixed part.
\<close>

definition to_datetime :: "(string \<Rightarrow> pydatetime option) \<Rightarrow> pyobj \<Rightarrow> error + pyobj" where
  "to_datetime fromisoformat x =
     (case x of
        Str s \<Rightarrow>
          (case fromisoformat s of
             None \<Rightarrow> Inl (ValueError ''Invalid isoformat string'')
           | Some d \<Rightarrow> Inr (Datetime d))
      | _ \<Rightarrow> Inr x)"

text \<open>
  The conversion of both arguments, then the two checks, in the order of the source. The
  comparison \<open>from_date >= to_date\<close> of the second check may itself raise.
\<close>

definition validate_dates ::
  "(string \<Rightarrow> pydatetime option) \<Rightarrow> pyobj \<Rightarrow> pyobj \<Rightarrow> error + pydatetime \<times> pydatetime" where
  "validate_dates fromisoformat from_date to_date =
     (case to_datetime fromisoformat from_date of
        Inl e \<Rightarrow> Inl e
      | Inr from_date' \<Rightarrow>
          (case to_datetime fromisoformat to_date of
             Inl e \<Rightarrow> Inl e
           | Inr to_date' \<Rightarrow>
               (case (from_date', to_date') of
                  (Datetime f, Datetime t) \<Rightarrow>
                    (case datetime_ge f t of
                       Inl e \<Rightarrow> Inl e
                     | Inr later \<Rightarrow>
                         if later
                         then Inl (ValueError '''from_date' must be earlier than 'to_date'.'')
                         else Inr (f, t))
                | _ \<Rightarrow> Inl (ValueError
                    ''Both 'from_date' and 'to_date' must be datetime objects or valid ISO format strings.''))))"

text \<open>\<open>historical_from_date\<close> and \<open>historical_to_date\<close>: the fields of both bounds minus
  \<open>timedelta(weeks=52)\<close>.\<close>

definition historical_dates :: "datetime \<Rightarrow> datetime \<Rightarrow> error + datetime \<times> datetime" where
  "historical_dates from_date to_date =
     (case dt_sub from_date (timedelta_weeks 52) of
        Inl e \<Rightarrow> Inl e
      | Inr historical_from_date \<Rightarrow>
          (case dt_sub to_date (timedelta_weeks 52) of
             Inl e \<Rightarrow> Inl e
           | Inr historical_to_date \<Rightarrow> Inr (historical_from_date, historical_to_date)))"

text \<open>
  Loading and filtering: the month of \<open>historical_from_date\<close> is loaded and cut below;
  when the months of the two bounds differ, the month of \<open>historical_to_date\<close> is loaded,
  cut above and appended; otherwise the first table is taken as it is.
\<close>

definition load_historical_rides ::
  "'w loader \<Rightarrow> datetime \<Rightarrow> datetime \<Rightarrow> 'w \<Rightarrow> (error + ride list) \<times> 'w" where
  "load_historical_rides load_and_process_taxi_data historical_from_date historical_to_date w =
     (case load_and_process_taxi_data (year historical_from_date) [month historical_from_date] w of
        (Inl e, w1) \<Rightarrow> (Inl e, w1)
      | (Inr loaded_from, w1) \<Rightarrow>
          let rides_from = filter (\<lambda>r. pickup_datetime r \<ge> historical_from_date) loaded_from
          in if month historical_to_date \<noteq> month historical_from_date
             then
               (case load_and_process_taxi_data (year historical_to_date) [month historical_to_date] w1 of
                  (Inl e, w2) \<Rightarrow> (Inl e, w2)
                | (Inr loaded_to, w2) \<Rightarrow>
                    let rides_to = filter (\<lambda>r. pickup_datetime r < historical_to_date) loaded_to
                    in (Inr (rides_from @ rides_to), w2))
             else (Inr rides_from, w1))"

text \<open>\<open>rides['pickup_datetime'] += timedelta(weeks=52)\<close>\<close>

definition shift_forward :: "ride list \<Rightarrow> ride list" where
  "shift_forward rides =
     map (\<lambda>r. r\<lparr>pickup_datetime := pickup_datetime r + timedelta_weeks 52\<rparr>) rides"

text \<open>\<open>rides.sort_values(by=['pickup_location_id', 'pickup_datetime'])\<close>: ascending on the
  pair, compared lexicographically.\<close>

definition sort_values :: "ride list \<Rightarrow> ride list" where
  "sort_values rides = sort_key (\<lambda>r. (pickup_location_id r, pickup_datetime r)) rides"

text \<open>
  The whole function. After the validation both bounds are naive or both are aware. The
  \<open>pickup_datetime\<close> column is timezone-naive (the notebook prints it as \<open>datetime64[ns]\<close>), and
  comparing it with an aware bound raises \<open>TypeError\<close> (with a message that depends on the
  version of the library): with aware bounds the function ends at the first filter, after
  the first table was loaded.
\<close>

definition fetch_batch_raw_data ::
  "(string \<Rightarrow> pydatetime option) \<Rightarrow> 'w loader \<Rightarrow> pyobj \<Rightarrow> pyobj \<Rightarrow> 'w \<Rightarrow> (error + ride list) \<times> 'w" where
  "fetch_batch_raw_data fromisoformat load_and_process_taxi_data from_date to_date w =
     (case validate_dates fromisoformat from_date to_date of
        Inl e \<Rightarrow> (Inl e, w)
      | Inr (from_date', to_date') \<Rightarrow>
          (case historical_dates (wall_clock from_date') (wall_clock to_date') of
             Inl e \<Rightarrow> (Inl e, w)
           | Inr (historical_from_date, historical_to_date) \<Rightarrow>
               (case from_date' of
                  Naive _ \<Rightarrow>
                    (case load_historical_rides load_and_process_taxi_data
                            historical_from_date historical_to_date w of
                       (Inl e, w') \<Rightarrow> (Inl e, w')
                     | (Inr rides, w') \<Rightarrow> (Inr (sort_values (shift_forward rides)), w'))
                | Aware _ _ \<Rightarrow>
                    (case load_and_process_taxi_data
                            (year historical_from_date) [month historical_from_date] w of
                       (Inl e, w1) \<Rightarrow> (Inl e, w1)
                     | (Inr loaded_from, w1) \<Rightarrow>
                         (Inl (TypeError
                            ''Cannot compare tz-naive and tz-aware datetime-like objects''), w1)))))"

text \<open>
  An instrumented loader for statements about the calls issued: it behaves as the given
  loader and appends each call's arguments to a log kept beside the world.
\<close>

definition logged :: "'w loader \<Rightarrow> ((int \<times> int list) list \<times> 'w) loader" where
  "logged load y months lw =
     (case load y months (snd lw) of
        (res, w') \<Rightarrow> (res, (fst lw @ [(y, months)], w')))"

section \<open>Hourly aggregation: \<open>transform_raw_data_into_ts_data\<close>\<close>

text \<open>Modelled from the spec: a row of the Aggregated Series, \<open>{hour, location_id, count}\<close>
  (section 3); the module that builds it is not among the sources.\<close>

record ts_row =
  hour :: int
  location_id :: int
  count_rides :: nat

text \<open>Modelled from the spec: the table handed to the aggregator; each of the two required
  fields is a column that may be absent (section 4.4, failure semantics).\<close>

record table =
  timestamp_column :: "int list option"
  location_column :: "int list option"

text \<open>Modelled from the spec: the one error kind of the core (section 7).\<close>

datatype agg_error = InvalidArgument

text \<open>Modelled from the spec: the Raw Events of a table, one per row, or \<open>InvalidArgument\<close> when the
  timestamp or the location field is missing.\<close>

definition events_of :: "table \<Rightarrow> agg_error + ride list" where
  "events_of tbl =
     (case (timestamp_column tbl, location_column tbl) of
        (Some ts, Some ls) \<Rightarrow>
          Inr (map (\<lambda>(t, l). \<lparr>pickup_datetime = t, pickup_location_id = l\<rparr>) (zip ts ls))
      | _ \<Rightarrow> Inl InvalidArgument)"

text \<open>Modelled from the spec: step 1, a timestamp truncated down to the start of its hour
  (floor, not round).\<close>

definition floor_hour :: "int \<Rightarrow> int" where
  "floor_hour t = (t div US_PER_HOUR) * US_PER_HOUR"

text \<open>Modelled from the spec: step 4, every hour from \<open>min_hour\<close> to \<open>max_hour\<close> inclusive, stepped by
  exactly one hour.\<close>

definition hours_between :: "int \<Rightarrow> int \<Rightarrow> int list" where
  "hours_between min_hour max_hour =
     map (\<lambda>k. min_hour + k * US_PER_HOUR) [0..(max_hour - min_hour) div US_PER_HOUR]"

text \<open>Modelled from the spec: step 5, the events counted per bucket, in a mapping from the
  composite key to the count (section 9).\<close>

definition count_events :: "(int \<times> int) list \<Rightarrow> (int \<times> int \<rightharpoonup> nat)" where
  "count_events keys =
     foldl (\<lambda>counts k. counts(k \<mapsto> (case counts k of None \<Rightarrow> 1 | Some c \<Rightarrow> Suc c))) Map.empty keys"

text \<open>Modelled from the spec: step 1, the bucket key \<open>(hour, location_id)\<close> of an event.\<close>

definition bucket_key :: "ride \<Rightarrow> int \<times> int" where
  "bucket_key e = (floor_hour (pickup_datetime e), pickup_location_id e)"

text \<open>Modelled from the spec: step 2, the floor of the minimum event timestamp.\<close>

definition min_hour :: "ride list \<Rightarrow> int" where
  "min_hour events = floor_hour (Min (set (map pickup_datetime events)))"

text \<open>Modelled from the spec: step 2, the floor of the maximum event timestamp.\<close>

definition max_hour :: "ride list \<Rightarrow> int" where
  "max_hour events = floor_hour (Max (set (map pickup_datetime events)))"

text \<open>Modelled from the spec: step 3, the distinct \<open>location_id\<close> values of the input.\<close>

definition locations :: "ride list \<Rightarrow> int list" where
  "locations events = remdups (map pickup_location_id events)"

text \<open>Modelled from the spec: step 4, the dense cross-product of the hours and the locations.\<close>

definition output_index :: "ride list \<Rightarrow> (int \<times> int) list" where
  "output_index events =
     List.product (hours_between (min_hour events) (max_hour events)) (locations events)"

text \<open>Modelled from the spec: steps 2, 6 and 7 of \<open>aggregate\<close>: the empty input gives the empty
  series; otherwise every cell of the index is emitted with its count, or 0, and the rows
  are sorted on \<open>(location_id, hour)\<close>.\<close>

definition aggregate_events :: "ride list \<Rightarrow> ts_row list" where
  "aggregate_events events =
     (if events = [] then []
      else
        let counts = count_events (map bucket_key events);
            rows = map (\<lambda>(h, l). \<lparr>hour = h, location_id = l,
                      count_rides = (case counts (h, l) of None \<Rightarrow> 0 | Some c \<Rightarrow> c)\<rparr>)
                     (output_index events)
        in sort_key (\<lambda>r. (location_id r, hour r)) rows)"

text \<open>Modelled from the spec: \<open>transform_raw_data_into_ts_data\<close> (the spec's \<open>aggregate\<close>), imported by
  the notebook from \<open>src.data_utils\<close>, which is not among the sources.\<close>

definition transform_raw_data_into_ts_data :: "table \<Rightarrow> agg_error + ts_row list" where
  "transform_raw_data_into_ts_data tbl =
     (case events_of tbl of Inl e \<Rightarrow> Inl e | Inr events \<Rightarrow> Inr (aggregate_events events))"

section \<open>Concrete inputs\<close>

text \<open>
  A fragment of the ISO parser is enough for the dates used below: \<open>YYYY-MM-DD\<close>, alone or
  followed by \<open>THH:MM:SS\<close>, and then by a UTC offset \<open>+HH:MM\<close> or \<open>-HH:MM\<close>, which makes the
  datetime aware.
\<close>

definition digit :: "char \<Rightarrow> int option" where
  "digit c = (let k = int (of_char c) in if 48 \<le> k \<and> k \<le> 57 then Some (k - 48) else None)"

fun number :: "string \<Rightarrow> int option" where
  "number [] = None"
| "number cs =
     foldl (\<lambda>acc c. case (acc, digit c) of (Some a, Some k) \<Rightarrow> Some (10 * a + k) | _ \<Rightarrow> None)
       (Some 0) cs"

definition iso_day :: "string \<Rightarrow> datetime option" where
  "iso_day s =
     (if length s = 10 \<and> s ! 4 = CHR ''-'' \<and> s ! 7 = CHR ''-'' then
        (case (number (take 4 s), number (take 2 (drop 5 s)), number (drop 8 s)) of
           (Some y, Some m, Some d) \<Rightarrow>
             if 1 \<le> y \<and> 1 \<le> m \<and> m \<le> 12 \<and> 1 \<le> d \<and> d \<le> days_in_month y m
             then Some (mk_datetime y m d 0 0 0) else None
         | _ \<Rightarrow> None)
      else None)"

definition iso_time :: "string \<Rightarrow> timedelta option" where
  "iso_time s =
     (if length s = 8 \<and> s ! 2 = CHR '':'' \<and> s ! 5 = CHR '':'' then
        (case (number (take 2 s), number (take 2 (drop 3 s)), number (drop 6 s)) of
           (Some hh, Some mm, Some ss) \<Rightarrow>
             if hh < 24 \<and> mm < 60 \<and> ss < 60
             then Some (hh * US_PER_HOUR + mm * (60 * US_PER_SECOND) + ss * US_PER_SECOND)
             else None
         | _ \<Rightarrow> None)
      else None)"

definition iso_offset :: "string \<Rightarrow> timedelta option" where
  "iso_offset s =
     (if length s = 6 \<and> (s ! 0 = CHR ''+'' \<or> s ! 0 = CHR ''-'') \<and> s ! 3 = CHR '':'' then
        (case (number (take 2 (drop 1 s)), number (drop 4 s)) of
           (Some hh, Some mm) \<Rightarrow>
             if hh < 24 \<and> mm < 60
             then Some ((if s ! 0 = CHR ''-'' then - 1 else 1)
                          * (hh * US_PER_HOUR + mm * (60 * US_PER_SECOND)))
             else None
         | _ \<Rightarrow> None)
      else None)"

definition iso_date :: "string \<Rightarrow> pydatetime option" where
  "iso_date s =
     (if length s = 10 then map_option Naive (iso_day s)
      else if (length s = 19 \<or> length s = 25) \<and> (s ! 10 = CHR ''T'' \<or> s ! 10 = CHR '' '') then
        (case (iso_day (take 10 s), iso_time (take 8 (drop 11 s))) of
           (Some d, Some t) \<Rightarrow>
             if length s = 19 then Some (Naive (d + t))
             else map_option (Aware (d + t)) (iso_offset (drop 19 s))
         | _ \<Rightarrow> None)
      else None)"

text \<open>A loader that has no data and raises nothing.\<close>

definition empty_loader :: "unit loader" where
  "empty_loader y months w = (Inr [], w)"

text \<open>A loader whose table of March 2024 holds two rides of zone 7, on the 20th and on
  the 12th, both at 08:30; it has nothing else.\<close>

definition march_2024_loader :: "unit loader" where
  "march_2024_loader y months w =
     (if y = 2024 \<and> months = [3]
      then Inr [\<lparr>pickup_datetime = mk_datetime 2024 3 20 8 30 0, pickup_location_id = 7\<rparr>,
                \<lparr>pickup_datetime = mk_datetime 2024 3 12 8 30 0, pickup_location_id = 7\<rparr>]
      else Inr [], w)"

text \<open>A loader whose table of March 2024 holds four rides of zones 7 and 3, out of order;
  it has nothing else.\<close>

definition zone_loader :: "unit loader" where
  "zone_loader y months w =
     (if y = 2024 \<and> months = [3]
      then Inr [\<lparr>pickup_datetime = mk_datetime 2024 3 12 8 30 0, pickup_location_id = 7\<rparr>,
                \<lparr>pickup_datetime = mk_datetime 2024 3 10 23 59 59, pickup_location_id = 7\<rparr>,
                \<lparr>pickup_datetime = mk_datetime 2024 3 12 9 0 0, pickup_location_id = 3\<rparr>,
                \<lparr>pickup_datetime = mk_datetime 2024 3 11 0 0 0, pickup_location_id = 7\<rparr>]
      else Inr [], w)"

text \<open>The three events of the spec's example, and a table with a duplicated event.\<close>

definition example_table :: table where
  "example_table =
     \<lparr>timestamp_column = Some [mk_datetime 2025 2 4 6 8 40, mk_datetime 2025 2 4 6 47 0,
                               mk_datetime 2025 2 4 7 15 0],
      location_column = Some [3, 3, 5]\<rparr>"


definition duplicate_table :: table where
  "duplicate_table =
     \<lparr>timestamp_column = Some [mk_datetime 2025 2 4 6 8 40, mk_datetime 2025 2 4 9 15 0,
                               mk_datetime 2025 2 4 6 8 40],
      location_column = Some [3, 5, 3]\<rparr>"

text \<open>A loader with rides in March and April 2024, each table holding rides of its own month
  only.\<close>

definition spring_2024_loader :: "unit loader" where
  "spring_2024_loader y months w =
     (if y = 2024 \<and> months = [3]
      then Inr [\<lparr>pickup_datetime = mk_datetime 2024 3 4 23 59 59, pickup_location_id = 7\<rparr>,
                \<lparr>pickup_datetime = mk_datetime 2024 3 20 8 30 0, pickup_location_id = 7\<rparr>]
      else if y = 2024 \<and> months = [4]
      then Inr [\<lparr>pickup_datetime = mk_datetime 2024 4 1 12 0 0, pickup_location_id = 3\<rparr>,
                \<lparr>pickup_datetime = mk_datetime 2024 4 20 12 0 0, pickup_location_id = 3\<rparr>]
      else Inr [], w)"

section \<open>The calendar\<close>

text \<open>\<open>_ord2ymd\<close> inverts \<open>_ymd2ord\<close> on every ordinal, and year and month grow with the ordinal.\<close>

lemmas month_tables = DAYS_IN_MONTH_def DAYS_BEFORE_MONTH_def

lemma month_cases:
  "1 \<le> m \<Longrightarrow> m \<le> 12 \<Longrightarrow>
   m = 1 \<or> m = 2 \<or> m = 3 \<or> m = 4 \<or> m = 5 \<or> m = 6 \<or> m = 7 \<or> m = 8 \<or> m = 9 \<or> m = 10 \<or> m = 11
     \<or> m = (12::int)"
  by arith

lemma days_in_month_pos: "1 \<le> m \<Longrightarrow> m \<le> 12 \<Longrightarrow> 28 \<le> days_in_month y m"
  using month_cases [of m] by (auto simp: days_in_month_def month_tables)

lemma days_before_month_step:
  "1 \<le> m \<Longrightarrow> m < 12 \<Longrightarrow> days_before_month y (m + 1) = days_before_month y m + days_in_month y m"
  using month_cases [of m] by (auto simp: days_before_month_def days_in_month_def month_tables)

lemma days_before_month_1: "days_before_month y 1 = 0"
  by (simp add: days_before_month_def month_tables)

lemma days_before_month_12:
  "days_before_month y 12 + days_in_month y 12 = 365 + (if is_leap y then 1 else 0)"
  by (simp add: days_before_month_def days_in_month_def month_tables)

lemma month_day_spec:
  assumes "0 \<le> n" and "n < 365" and "month_day (is_leap y) n = (m, d)"
  shows "1 \<le> m \<and> m \<le> 12 \<and> 1 \<le> d \<and> d \<le> days_in_month y m \<and> days_before_month y m + d = n + 1"
proof -
  define m0 where "m0 = (n + 50) div 32"
  have b: "32 * m0 \<le> n + 50" "n + 50 < 32 * m0 + 32"
    unfolding m0_def by presburger+
  with assms(1,2) have "1 \<le> m0" "m0 \<le> 12" by simp_all
  from month_cases [OF this] b assms show ?thesis
    unfolding month_day_def Let_def m0_def [symmetric]
    by (elim disjE; simp add: days_in_month_def days_before_month_def month_tables split: if_splits;
        linarith?)
qed


lemma div_step:
  assumes "0 < (k::int)"
  shows "y div k = (y - 1) div k + (if y mod k = 0 then 1 else 0)"
proof (cases "y mod k = 0")
  case True
  have "y = k * (y div k) + y mod k" by simp
  with True have "y - 1 = k * (y div k - 1) + (k - 1)"
    by (simp add: algebra_simps)
  then have "(y - 1) div k = y div k - 1"
    by (rule int_div_pos_eq) (use assms in simp_all)
  with True show ?thesis by simp
next
  case False
  have "0 \<le> y mod k" using assms by simp
  with False have r: "0 \<le> y mod k - 1" by simp
  have "y mod k < k" using assms by simp
  then have r': "y mod k - 1 < k" by simp
  have "y = k * (y div k) + y mod k" by simp
  then have "y - 1 = k * (y div k) + (y mod k - 1)" by simp
  then have "(y - 1) div k = y div k"
    using r r' by (rule int_div_pos_eq)
  with False show ?thesis by simp
qed

lemma mod_400_100: "(y::int) mod 400 = 0 \<Longrightarrow> y mod 100 = 0"
  using mod_mod_cancel [of 100 400 y] by simp

lemma mod_100_4: "(y::int) mod 100 = 0 \<Longrightarrow> y mod 4 = 0"
  using mod_mod_cancel [of 4 100 y] by simp

lemma leap_count:
  "(if (y::int) mod 4 = 0 then 1 else 0) - (if y mod 100 = 0 then 1 else 0)
     + (if y mod 400 = 0 then 1 else 0) = (if is_leap y then 1 else (0::int))"
proof (cases "y mod 400 = 0")
  case True
  then have "y mod 100 = 0" by (rule mod_400_100)
  moreover from this have "y mod 4 = 0" by (rule mod_100_4)
  ultimately show ?thesis using True by (simp add: is_leap_def)
next
  case n400: False
  show ?thesis
  proof (cases "y mod 100 = 0")
    case True
    then have "y mod 4 = 0" by (rule mod_100_4)
    with True n400 show ?thesis by (simp add: is_leap_def)
  next
    case False
    with n400 show ?thesis by (simp add: is_leap_def)
  qed
qed

lemma days_before_year_step:
  "days_before_year (y + 1) = days_before_year y + 365 + (if is_leap y then 1 else 0)"
proof -
  define q4 q100 q400 where "q4 = (y - 1) div 4" and "q100 = (y - 1) div 100"
    and "q400 = (y - 1) div 400"
  define i4 i100 i400 :: int where "i4 = (if y mod 4 = 0 then 1 else 0)"
    and "i100 = (if y mod 100 = 0 then 1 else 0)" and "i400 = (if y mod 400 = 0 then 1 else 0)"
  have a: "y div 4 = q4 + i4" unfolding q4_def i4_def by (rule div_step) simp
  have b: "y div 100 = q100 + i100" unfolding q100_def i100_def by (rule div_step) simp
  have c: "y div 400 = q400 + i400" unfolding q400_def i400_def by (rule div_step) simp
  have l: "i4 - i100 + i400 = (if is_leap y then 1 else 0)"
    unfolding i4_def i100_def i400_def by (rule leap_count)
  have "days_before_year (y + 1) = y * 365 + y div 4 - y div 100 + y div 400"
    by (simp add: days_before_year_def)
  also have "\<dots> = y * 365 + (q4 + i4) - (q100 + i100) + (q400 + i400)"
    by (simp only: a b c)
  also have "\<dots> = ((y - 1) * 365 + q4 - q100 + q400) + 365 + (i4 - i100 + i400)"
    by (simp add: algebra_simps)
  also have "(y - 1) * 365 + q4 - q100 + q400 = days_before_year y"
    by (simp add: days_before_year_def Let_def q4_def q100_def q400_def)
  finally show ?thesis by (simp only: l)
qed

lemma days_before_year_mono: "y \<le> y' \<Longrightarrow> days_before_year y \<le> days_before_year y'"
proof (induction y' rule: int_ge_induct)
  case base
  show ?case by simp
next
  case (step i)
  then show ?case by (simp add: days_before_year_step)
qed

lemma days_before_year_next: "y < y' \<Longrightarrow> days_before_year (y + 1) \<le> days_before_year y'"
  by (rule days_before_year_mono) simp

lemma days_before_month_mono:
  assumes "m \<le> m'" and "1 \<le> m" and "m' \<le> 12"
  shows "days_before_month y m \<le> days_before_month y m'"
  using assms
proof (induction m' rule: int_ge_induct)
  case base
  show ?case by simp
next
  case (step i)
  then have "days_before_month y (i + 1) = days_before_month y i + days_in_month y i"
    by (intro days_before_month_step) simp_all
  moreover have "28 \<le> days_in_month y i"
    using step by (intro days_in_month_pos) simp_all
  ultimately show ?case using step by simp
qed

lemma days_before_month_nonneg: "1 \<le> m \<Longrightarrow> m \<le> 12 \<Longrightarrow> 0 \<le> days_before_month y m"
  using days_before_month_mono [of 1 m y] by (simp add: days_before_month_1)

lemma days_before_month_end:
  assumes "1 \<le> m" and "m \<le> 12"
  shows "days_before_month y m + days_in_month y m \<le> 365 + (if is_leap y then 1 else 0)"
proof (cases "m = 12")
  case True
  then show ?thesis using days_before_month_12 [of y] by simp
next
  case False
  with assms have "days_before_month y (m + 1) = days_before_month y m + days_in_month y m"
    by (intro days_before_month_step) simp_all
  moreover have "days_before_month y (m + 1) \<le> days_before_month y 12"
    using assms False by (intro days_before_month_mono) simp_all
  moreover have "0 \<le> days_in_month y 12"
    using days_in_month_pos [of 12 y] by simp
  ultimately show ?thesis using days_before_month_12 [of y] by simp
qed


lemma days_before_year_decomp:
  assumes "0 \<le> b" "b \<le> 3" "0 \<le> c" "c \<le> 24" "0 \<le> e" "e \<le> 3"
  shows "days_before_year (400 * a + 100 * b + 4 * c + e + 1) =
           146097 * a + 36524 * b + 1461 * c + 365 * e"
proof -
  define z where "z = 400 * a + 100 * b + 4 * c + e"
  have "z = 4 * (100 * a + 25 * b + c) + e" by (simp add: z_def)
  then have d4: "z div 4 = 100 * a + 25 * b + c"
    by (rule int_div_pos_eq) (use assms in simp_all)
  have "z = 100 * (4 * a + b) + (4 * c + e)" by (simp add: z_def)
  then have d100: "z div 100 = 4 * a + b"
    by (rule int_div_pos_eq) (use assms in simp_all)
  have "z = 400 * a + (100 * b + 4 * c + e)" by (simp add: z_def)
  then have d400: "z div 400 = a"
    by (rule int_div_pos_eq) (use assms in simp_all)
  have "days_before_year (z + 1) = z * 365 + z div 4 - z div 100 + z div 400"
    by (simp add: days_before_year_def)
  also have "\<dots> = 146097 * a + 36524 * b + 1461 * c + 365 * e"
    by (simp only: d4 d100 d400) (simp add: z_def)
  finally show ?thesis by (simp only: z_def)
qed

lemma is_leap_decomp:
  assumes "0 \<le> b" "b \<le> 3" "0 \<le> c" "c \<le> 24" "0 \<le> e" "e \<le> 3"
  shows "is_leap (400 * a + 100 * b + 4 * c + e + 1) = (e = 3 \<and> (c \<noteq> 24 \<or> b = 3))"
proof -
  define y where "y = 400 * a + 100 * b + 4 * c + e + 1"
  have "is_leap y = (e = 3 \<and> (c \<noteq> 24 \<or> b = 3))"
  proof (cases "e = 3")
    case False
    have "y = 4 * (100 * a + 25 * b + c) + (e + 1)" by (simp add: y_def)
    then have "y mod 4 = e + 1"
      by (rule int_mod_pos_eq) (use assms False in simp_all)
    with assms False show ?thesis by (simp add: is_leap_def)
  next
    case e3: True
    have "y = 4 * (100 * a + 25 * b + c + 1) + 0" by (simp add: y_def e3)
    then have m4: "y mod 4 = 0"
      by (rule int_mod_pos_eq) simp_all
    show ?thesis
    proof (cases "c = 24")
      case False
      have "y = 100 * (4 * a + b) + (4 * c + 4)" by (simp add: y_def e3)
      then have "y mod 100 = 4 * c + 4"
        by (rule int_mod_pos_eq) (use assms False in simp_all)
      with assms False e3 m4 show ?thesis by (simp add: is_leap_def)
    next
      case c24: True
      have "y = 100 * (4 * a + b + 1) + 0" by (simp add: y_def e3 c24)
      then have m100: "y mod 100 = 0"
        by (rule int_mod_pos_eq) simp_all
      show ?thesis
      proof (cases "b = 3")
        case False
        have "y = 400 * a + (100 * b + 100)" by (simp add: y_def e3 c24)
        then have "y mod 400 = 100 * b + 100"
          by (rule int_mod_pos_eq) (use assms False in simp_all)
        with assms False e3 c24 m4 m100 show ?thesis by (simp add: is_leap_def)
      next
        case True
        have "y = 400 * (a + 1) + 0" by (simp add: y_def e3 c24 True)
        then have "y mod 400 = 0"
          by (rule int_mod_pos_eq) simp_all
        with True e3 c24 m4 m100 show ?thesis by (simp add: is_leap_def)
      qed
    qed
  qed
  then show ?thesis by (simp only: y_def)
qed


lemma ord2ymd_spec:
  assumes "ord2ymd n = (y, m, d)"
  shows "1 \<le> m \<and> m \<le> 12 \<and> 1 \<le> d \<and> d \<le> days_in_month y m \<and> ymd2ord y m d = n"
proof -
  define a where "a = (n - 1) div 146097"
  define r1 where "r1 = (n - 1) mod 146097"
  define b where "b = r1 div 36524"
  define r2 where "r2 = r1 mod 36524"
  define c where "c = r2 div 1461"
  define r3 where "r3 = r2 mod 1461"
  define e where "e = r3 div 365"
  define r4 where "r4 = r3 mod 365"
  have n: "n = 146097 * a + r1 + 1" and r1: "0 \<le> r1" "r1 < 146097"
    unfolding a_def r1_def by simp_all
  have r1': "r1 = 36524 * b + r2" and r2: "0 \<le> r2" "r2 < 36524"
    unfolding b_def r2_def by simp_all
  have r2': "r2 = 1461 * c + r3" and r3: "0 \<le> r3" "r3 < 1461"
    unfolding c_def r3_def by simp_all
  have r3': "r3 = 365 * e + r4" and r4: "0 \<le> r4" "r4 < 365"
    unfolding e_def r4_def by simp_all
  have b: "0 \<le> b" "b \<le> 4" using r1 r1' r2 by linarith+
  have c: "0 \<le> c" "c \<le> 24" using r2 r2' r3 by linarith+
  have e: "0 \<le> e" "e \<le> 4" using r3 r3' r4 by linarith+
  have ord: "ord2ymd n =
      (if e = 4 \<or> b = 4 then (400 * a + 100 * b + 4 * c + e, 12, 31)
       else (400 * a + 100 * b + 4 * c + e + 1, month_day (e = 3 \<and> (c \<noteq> 24 \<or> b = 3)) r4))"
    unfolding ord2ymd_def Let_def DI400Y_def DI100Y_def DI4Y_def
      a_def r1_def b_def r2_def c_def r3_def e_def r4_def
    by (simp add: algebra_simps)
  consider (b4) "b = 4" | (e4) "b \<le> 3" "e = 4" | (gen) "b \<le> 3" "e \<le> 3"
    using b e by linarith
  then show ?thesis
  proof cases
    case b4
    with r1 r1' r2 have "r2 = 0" by linarith
    then have z: "c = 0" "e = 0" "r4 = 0" "r3 = 0"
      unfolding c_def r3_def e_def r4_def by simp_all
    from ord b4 z assms have y: "y = 400 * a + 400" and m: "m = 12" and d: "d = 31"
      by simp_all
    have "days_before_year (400 * a + 100 * 3 + 4 * 24 + 3 + 1) =
        146097 * a + 36524 * 3 + 1461 * 24 + 365 * 3"
      by (rule days_before_year_decomp) simp_all
    then have dby: "days_before_year y = 146097 * a + 145731"
      by (simp add: y algebra_simps)
    have "is_leap (400 * a + 100 * 3 + 4 * 24 + 3 + 1) = ((3::int) = 3 \<and> ((24::int) \<noteq> 24 \<or> (3::int) = 3))"
      by (rule is_leap_decomp) simp_all
    then have leap: "is_leap y" by (simp add: y algebra_simps)
    from n r1' b4 \<open>r2 = 0\<close> have "n = 146097 * a + 146097" by simp
    with dby leap m d show ?thesis
      by (simp add: ymd2ord_def days_before_month_def days_in_month_def month_tables)
  next
    case e4
    with r3 r3' r4 have "r4 = 0" by linarith
    with r2 r2' r3' e4 have c': "c \<le> 23" by linarith
    from ord e4 assms have y: "y = 400 * a + 100 * b + 4 * c + 4" and m: "m = 12" and d: "d = 31"
      by simp_all
    have "days_before_year (400 * a + 100 * b + 4 * c + 3 + 1) =
        146097 * a + 36524 * b + 1461 * c + 365 * 3"
      by (rule days_before_year_decomp) (use b c e4 in simp_all)
    then have dby: "days_before_year y = 146097 * a + 36524 * b + 1461 * c + 1095"
      by (simp add: y algebra_simps)
    have "is_leap (400 * a + 100 * b + 4 * c + 3 + 1) = ((3::int) = 3 \<and> (c \<noteq> 24 \<or> b = 3))"
      by (rule is_leap_decomp) (use b c e4 in simp_all)
    with c' have leap: "is_leap y" by (simp add: y algebra_simps)
    from n r1' r2' r3' e4 \<open>r4 = 0\<close> have "n = 146097 * a + 36524 * b + 1461 * c + 1461" by simp
    with dby leap m d show ?thesis
      by (simp add: ymd2ord_def days_before_month_def days_in_month_def month_tables)
  next
    case gen
    from ord gen assms have y: "y = 400 * a + 100 * b + 4 * c + e + 1"
      and md: "month_day (e = 3 \<and> (c \<noteq> 24 \<or> b = 3)) r4 = (m, d)"
      by simp_all
    have dby: "days_before_year y = 146097 * a + 36524 * b + 1461 * c + 365 * e"
      unfolding y by (rule days_before_year_decomp) (use b c e gen in simp_all)
    have "is_leap y = (e = 3 \<and> (c \<noteq> 24 \<or> b = 3))"
      unfolding y by (rule is_leap_decomp) (use b c e gen in simp_all)
    with md have "month_day (is_leap y) r4 = (m, d)" by simp
    from month_day_spec [OF r4 this]
    have s: "1 \<le> m" "m \<le> 12" "1 \<le> d" "d \<le> days_in_month y m" "days_before_month y m + d = r4 + 1"
      by simp_all
    from n r1' r2' r3' dby have "n = days_before_year y + r4 + 1" by simp
    with s show ?thesis by (simp add: ymd2ord_def)
  qed
qed


lemma ymd2ord_less:
  assumes "1 \<le> m" "m \<le> 12" "d \<le> days_in_month y m"
    and "1 \<le> m'" "m' \<le> 12" "1 \<le> d'"
    and "y < y' \<or> (y = y' \<and> m < m')"
  shows "ymd2ord y m d < ymd2ord y' m' d'"
proof -
  have p: "0 \<le> days_before_month y' m'"
    using assms(4,5) by (rule days_before_month_nonneg)
  from assms(7) show ?thesis
  proof
    assume "y < y'"
    then have "days_before_year (y + 1) \<le> days_before_year y'"
      by (rule days_before_year_next)
    moreover have "days_before_month y m + days_in_month y m \<le> 365 + (if is_leap y then 1 else 0)"
      using assms(1,2) by (rule days_before_month_end)
    ultimately show ?thesis
      using assms(3,6) p by (simp add: ymd2ord_def days_before_year_step)
  next
    assume eq: "y = y' \<and> m < m'"
    with assms(1,5) have "days_before_month y (m + 1) = days_before_month y m + days_in_month y m"
      by (intro days_before_month_step) simp_all
    moreover have "days_before_month y (m + 1) \<le> days_before_month y m'"
      using eq assms(1,5) by (intro days_before_month_mono) simp_all
    ultimately show ?thesis
      using assms(3,6) eq by (simp add: ymd2ord_def)
  qed
qed

lemma ord2ymd_mono:
  assumes "n \<le> n'" and "ord2ymd n = (y, m, d)" and "ord2ymd n' = (y', m', d')"
  shows "y < y' \<or> (y = y' \<and> m \<le> m')"
proof (rule ccontr)
  assume "\<not> (y < y' \<or> (y = y' \<and> m \<le> m'))"
  then have lt: "y' < y \<or> (y' = y \<and> m' < m)" by linarith
  from ord2ymd_spec [OF assms(2)] have a: "1 \<le> m" "m \<le> 12" "1 \<le> d" "ymd2ord y m d = n"
    by simp_all
  from ord2ymd_spec [OF assms(3)]
  have b: "1 \<le> m'" "m' \<le> 12" "d' \<le> days_in_month y' m'" "ymd2ord y' m' d' = n'"
    by simp_all
  from ymd2ord_less [OF b(1,2,3) a(1,2,3) lt] a(4) b(4) assms(1) show False by simp
qed

lemma US_PER_DAY_pos: "0 < US_PER_DAY"
  by (simp add: US_PER_DAY_def US_PER_HOUR_def US_PER_SECOND_def)

lemma year_month_mono:
  assumes "a \<le> b"
  shows "year a < year b \<or> (year a = year b \<and> month a \<le> month b)"
proof -
  have "toordinal a \<le> toordinal b"
    using assms US_PER_DAY_pos by (simp add: toordinal_def zdiv_mono1)
  moreover have "ord2ymd (toordinal a) = (year a, month a, snd (snd (ord2ymd (toordinal a))))"
    by (simp only: year_def month_def prod.collapse)
  moreover have "ord2ymd (toordinal b) = (year b, month b, snd (snd (ord2ymd (toordinal b))))"
    by (simp only: year_def month_def prod.collapse)
  ultimately show ?thesis by (rule ord2ymd_mono)
qed

lemma later_month_after:
  assumes "hf < ht" and "month ht \<noteq> month hf" and "year x = year ht" and "month x = month ht"
  shows "hf \<le> x"
proof (rule ccontr)
  assume "\<not> hf \<le> x"
  then have "x \<le> hf" by simp
  then have a: "year x < year hf \<or> (year x = year hf \<and> month x \<le> month hf)"
    by (rule year_month_mono)
  from assms(1) have "hf \<le> ht" by simp
  then have b: "year hf < year ht \<or> (year hf = year ht \<and> month hf \<le> month ht)"
    by (rule year_month_mono)
  from a b assms(2,3,4) show False by arith
qed

section \<open>Validation\<close>






lemma fetch_invalid:
  "validate_dates fi from_date to_date = Inl e \<Longrightarrow>
   fetch_batch_raw_data fi load from_date to_date w = (Inl e, w)"
  by (simp add: fetch_batch_raw_data_def)




text \<open>
  Claim C9. The parsing, the type check and the order check all come before the first call
  of the loader: when one of them raises, \<open>fetch_batch_raw_data\<close> raises that error, the
  world is as it was, and the log of loader calls is still empty.
\<close>

theorem validation_before_loading:
  "validate_dates fi from_date to_date = Inl e \<Longrightarrow>
     fetch_batch_raw_data fi load from_date to_date w = (Inl e, w) \<and>
     fetch_batch_raw_data fi (logged load) from_date to_date ([], w) = (Inl e, ([], w))"
  by (simp add: fetch_invalid)

theorem validation_before_loading_witness:
  "fetch_batch_raw_data iso_date (logged empty_loader) (Str ''2025-02-01'') (Str ''2025-01-01'') ([], ())
     = (Inl (ValueError '''from_date' must be earlier than 'to_date'.''), ([], ()))
   \<and> fetch_batch_raw_data iso_date (logged empty_loader) (Str ''2025-03-04'') (Str ''2025-04-01'') ([], ())
     = (Inr [], ([(2024, [3]), (2024, [4])], ()))"
proof -
  have v: "validate_dates iso_date (Str ''2025-02-01'') (Str ''2025-01-01'') =
      Inl (ValueError '''from_date' must be earlier than 'to_date'.'')"
    by code_simp
  have ok: "fetch_batch_raw_data iso_date (logged empty_loader) (Str ''2025-03-04'') (Str ''2025-04-01'') ([], ())
     = (Inr [], ([(2024, [3]), (2024, [4])], ()))"
    by code_simp
  from validation_before_loading [OF v, of empty_loader "()"] ok show ?thesis by simp
qed

section \<open>The historical window and the relabelling\<close>

lemma validate_dates_kinds:
  "validate_dates fi a b = Inr (f, t) \<Longrightarrow>
   (\<exists>x y. f = Naive x \<and> t = Naive y \<and> x < y) \<or>
   (\<exists>x ox y oy. f = Aware x ox \<and> t = Aware y oy \<and> x - ox < y - oy)"
  by (cases f; cases t)
    (auto simp: validate_dates_def datetime_ge_def split: sum.splits pyobj.splits if_splits)

lemma validate_dates_Inr:
  "validate_dates fi a b = Inr (Naive f, Naive t) \<Longrightarrow> f < t"
  by (drule validate_dates_kinds) simp

lemma fetch_Inr:
  assumes "fetch_batch_raw_data fi load a b w = (Inr rides, w')"
  shows "\<exists>f t hf ht loaded. validate_dates fi a b = Inr (Naive f, Naive t) \<and>
      historical_dates f t = Inr (hf, ht) \<and>
      load_historical_rides load hf ht w = (Inr loaded, w') \<and>
      rides = sort_values (shift_forward loaded)"
proof -
  from assms obtain f' t' where v: "validate_dates fi a b = Inr (f', t')"
    by (auto simp: fetch_batch_raw_data_def split: sum.splits)
  from validate_dates_kinds [OF v] show ?thesis
  proof (elim disjE exE conjE)
    fix x y assume k: "f' = Naive x" "t' = Naive y"
    with assms v show ?thesis
      by (auto simp: fetch_batch_raw_data_def split: sum.splits prod.splits)
  next
    fix x ox y oy assume k: "f' = Aware x ox" "t' = Aware y oy"
    with assms v show ?thesis
      by (auto simp: fetch_batch_raw_data_def split: sum.splits prod.splits)
  qed
qed

lemma dt_add_alt:
  "dt_add d td = (if is_datetime (d + td) then Inr (d + td) else Inl OverflowError)"
  unfolding dt_add_def is_datetime_def Let_def US_PER_DAY_def US_PER_HOUR_def US_PER_SECOND_def MAXORDINAL_def
  by auto

lemma historical_dates_Inr:
  "historical_dates f t = Inr (hf, ht) \<longleftrightarrow>
     hf = f - timedelta_weeks 52 \<and> ht = t - timedelta_weeks 52 \<and> is_datetime hf \<and> is_datetime ht"
  by (auto simp: historical_dates_def dt_sub_def dt_add_alt split: sum.splits)

lemma mset_sort_values: "mset (sort_values rides) = mset rides"
  by (simp add: sort_values_def)

lemma sorted_sort_values:
  "sorted (map (\<lambda>r. (pickup_location_id r, pickup_datetime r)) (sort_values rides))"
  by (simp add: sort_values_def)

text \<open>
  Claim C6. In every run that returns a table, the returned rides are the loaded and
  filtered historical rides, each with 52 * 7 days added to its timestamp (as multisets: none
  is dropped, none is added), and the table is sorted ascending on
  \<open>(pickup_location_id, pickup_datetime)\<close>.
\<close>

theorem relabelled_and_sorted:
  "fetch_batch_raw_data fi load from_date to_date w = (Inr rides, w') \<Longrightarrow>
   \<exists>f t hf ht loaded.
      validate_dates fi from_date to_date = Inr (Naive f, Naive t) \<and> historical_dates f t = Inr (hf, ht) \<and>
      load_historical_rides load hf ht w = (Inr loaded, w') \<and>
      mset rides =
        image_mset (\<lambda>r. r\<lparr>pickup_datetime := pickup_datetime r + 52 * 7 * US_PER_DAY\<rparr>) (mset loaded) \<and>
      length rides = length loaded \<and>
      sorted (map (\<lambda>r. (pickup_location_id r, pickup_datetime r)) rides)"
proof -
  assume "fetch_batch_raw_data fi load from_date to_date w = (Inr rides, w')"
  from fetch_Inr [OF this] obtain f t hf ht loaded where
    v: "validate_dates fi from_date to_date = Inr (Naive f, Naive t)" and
    h: "historical_dates f t = Inr (hf, ht)" and
    l: "load_historical_rides load hf ht w = (Inr loaded, w')" and
    r: "rides = sort_values (shift_forward loaded)"
    by blast
  have "mset rides = mset (shift_forward loaded)"
    unfolding r by (rule mset_sort_values)
  also have "\<dots> = image_mset (\<lambda>r. r\<lparr>pickup_datetime := pickup_datetime r + 52 * 7 * US_PER_DAY\<rparr>) (mset loaded)"
    by (simp add: shift_forward_def timedelta_weeks_def)
  finally have m: "mset rides =
      image_mset (\<lambda>r. r\<lparr>pickup_datetime := pickup_datetime r + 52 * 7 * US_PER_DAY\<rparr>) (mset loaded)" .
  have n: "length rides = length loaded"
    unfolding r by (simp add: sort_values_def shift_forward_def)
  have s: "sorted (map (\<lambda>r. (pickup_location_id r, pickup_datetime r)) rides)"
    unfolding r by (rule sorted_sort_values)
  show ?thesis
    by (intro exI [of _ f] exI [of _ t] exI [of _ hf] exI [of _ ht] exI [of _ loaded] conjI)
      (fact v h l m n s)+
qed

theorem relabelled_and_sorted_witness:
  "\<exists>f t hf ht loaded.
      validate_dates iso_date (Str ''2025-03-10'') (Str ''2025-03-13'') = Inr (Naive f, Naive t) \<and>
      historical_dates f t = Inr (hf, ht) \<and>
      load_historical_rides zone_loader hf ht () = (Inr loaded, ()) \<and>
      mset [\<lparr>pickup_datetime = mk_datetime 2025 3 11 9 0 0, pickup_location_id = 3\<rparr>,
            \<lparr>pickup_datetime = mk_datetime 2025 3 10 0 0 0, pickup_location_id = 7\<rparr>,
            \<lparr>pickup_datetime = mk_datetime 2025 3 11 8 30 0, pickup_location_id = 7\<rparr>] =
        image_mset (\<lambda>r. r\<lparr>pickup_datetime := pickup_datetime r + 52 * 7 * US_PER_DAY\<rparr>) (mset loaded) \<and>
      length [\<lparr>pickup_datetime = mk_datetime 2025 3 11 9 0 0, pickup_location_id = 3\<rparr>,
            \<lparr>pickup_datetime = mk_datetime 2025 3 10 0 0 0, pickup_location_id = 7\<rparr>,
            \<lparr>pickup_datetime = mk_datetime 2025 3 11 8 30 0, pickup_location_id = 7\<rparr>] = length loaded \<and>
      sorted (map (\<lambda>r. (pickup_location_id r, pickup_datetime r))
           [\<lparr>pickup_datetime = mk_datetime 2025 3 11 9 0 0, pickup_location_id = 3\<rparr>,
            \<lparr>pickup_datetime = mk_datetime 2025 3 10 0 0 0, pickup_location_id = 7\<rparr>,
            \<lparr>pickup_datetime = mk_datetime 2025 3 11 8 30 0, pickup_location_id = 7\<rparr>])"
proof -
  have run: "fetch_batch_raw_data iso_date zone_loader (Str ''2025-03-10'') (Str ''2025-03-13'') () =
      (Inr [\<lparr>pickup_datetime = mk_datetime 2025 3 11 9 0 0, pickup_location_id = 3\<rparr>,
            \<lparr>pickup_datetime = mk_datetime 2025 3 10 0 0 0, pickup_location_id = 7\<rparr>,
            \<lparr>pickup_datetime = mk_datetime 2025 3 11 8 30 0, pickup_location_id = 7\<rparr>], ())"
    by code_simp
  show ?thesis by (rule relabelled_and_sorted [OF run])
qed

text \<open>
  Claim C7. Round trip of the window shift: for datetimes \<open>from_date < to_date\<close> and any number
  of weeks \<open>w\<close>, when subtracting \<open>timedelta(weeks=w)\<close> gives the bounds \<open>hf\<close> and \<open>ht\<close>, adding it
  back gives \<open>from_date\<close> and \<open>to_date\<close> again; at the 52 weeks of the source, these are the
  historical bounds, and the relabelling of rides maps a ride at \<open>hf\<close> (\<open>ht\<close>) to
  \<open>from_date\<close> (\<open>to_date\<close>).
\<close>

theorem window_shift_round_trip:
  assumes "is_datetime from_date" and "is_datetime to_date" and "from_date < to_date"
    and "dt_sub from_date (timedelta_weeks w) = Inr hf"
    and "dt_sub to_date (timedelta_weeks w) = Inr ht"
  shows "dt_add hf (timedelta_weeks w) = Inr from_date \<and>
         dt_add ht (timedelta_weeks w) = Inr to_date \<and>
         hf + timedelta_weeks w = from_date \<and> ht + timedelta_weeks w = to_date \<and>
         (if w = 52
          then historical_dates from_date to_date = Inr (hf, ht) \<and>
               shift_forward [\<lparr>pickup_datetime = hf, pickup_location_id = z\<rparr>,
                              \<lparr>pickup_datetime = ht, pickup_location_id = z\<rparr>] =
                 [\<lparr>pickup_datetime = from_date, pickup_location_id = z\<rparr>,
                  \<lparr>pickup_datetime = to_date, pickup_location_id = z\<rparr>]
          else True)"
  using assms
  by (auto simp: dt_sub_def dt_add_alt historical_dates_Inr shift_forward_def split: if_splits)

theorem window_shift_round_trip_witness:
  "dt_add (mk_datetime 2024 3 5 0 0 0) (timedelta_weeks 52) = Inr (mk_datetime 2025 3 4 0 0 0) \<and>
   dt_add (mk_datetime 2024 4 2 0 0 0) (timedelta_weeks 52) = Inr (mk_datetime 2025 4 1 0 0 0) \<and>
   mk_datetime 2024 3 5 0 0 0 + timedelta_weeks 52 = mk_datetime 2025 3 4 0 0 0 \<and>
   mk_datetime 2024 4 2 0 0 0 + timedelta_weeks 52 = mk_datetime 2025 4 1 0 0 0 \<and>
   historical_dates (mk_datetime 2025 3 4 0 0 0) (mk_datetime 2025 4 1 0 0 0) =
     Inr (mk_datetime 2024 3 5 0 0 0, mk_datetime 2024 4 2 0 0 0) \<and>
   shift_forward [\<lparr>pickup_datetime = mk_datetime 2024 3 5 0 0 0, pickup_location_id = 7\<rparr>,
                  \<lparr>pickup_datetime = mk_datetime 2024 4 2 0 0 0, pickup_location_id = 7\<rparr>] =
     [\<lparr>pickup_datetime = mk_datetime 2025 3 4 0 0 0, pickup_location_id = 7\<rparr>,
      \<lparr>pickup_datetime = mk_datetime 2025 4 1 0 0 0, pickup_location_id = 7\<rparr>]"
proof -
  have a: "is_datetime (mk_datetime 2025 3 4 0 0 0)" by code_simp
  have b: "is_datetime (mk_datetime 2025 4 1 0 0 0)" by code_simp
  have c: "mk_datetime 2025 3 4 0 0 0 < mk_datetime 2025 4 1 0 0 0" by code_simp
  have d: "dt_sub (mk_datetime 2025 3 4 0 0 0) (timedelta_weeks 52) = Inr (mk_datetime 2024 3 5 0 0 0)"
    by code_simp
  have e: "dt_sub (mk_datetime 2025 4 1 0 0 0) (timedelta_weeks 52) = Inr (mk_datetime 2024 4 2 0 0 0)"
    by code_simp
  from window_shift_round_trip [OF a b c d e, of 7] show ?thesis by simp
qed

text \<open>
  Claim C4, as stated, fails: the function takes no number of weeks. Asked through a window
  for a shift of one week, it still returns the bounds of 52 weeks before.
\<close>

theorem weeks_is_not_a_parameter:
  "historical_dates (mk_datetime 2025 3 4 0 0 0) (mk_datetime 2025 4 1 0 0 0) \<noteq>
     Inr (mk_datetime 2025 3 4 0 0 0 - timedelta_weeks 1, mk_datetime 2025 4 1 0 0 0 - timedelta_weeks 1)"
  by code_simp

text \<open>
  Claim C4, amended. The offset is the constant 52 weeks of the source: for bounds
  \<open>from_date < to_date\<close> at least 364 days after 0001-01-01, both historical bounds are exactly
  364 days earlier; the window from 2025-03-04 to 2025-04-01 is sampled from 2024-03-05 to
  2024-04-02.
\<close>

theorem historical_dates_52_weeks:
  "(from_date < to_date \<and> is_datetime to_date \<and> 364 * US_PER_DAY \<le> from_date \<longrightarrow>
      historical_dates from_date to_date =
        Inr (from_date - 364 * US_PER_DAY, to_date - 364 * US_PER_DAY)) \<and>
   historical_dates (mk_datetime 2025 3 4 0 0 0) (mk_datetime 2025 4 1 0 0 0) =
     Inr (mk_datetime 2024 3 5 0 0 0, mk_datetime 2024 4 2 0 0 0)"
proof
  show "from_date < to_date \<and> is_datetime to_date \<and> 364 * US_PER_DAY \<le> from_date \<longrightarrow>
      historical_dates from_date to_date =
        Inr (from_date - 364 * US_PER_DAY, to_date - 364 * US_PER_DAY)"
    by (auto simp: historical_dates_Inr timedelta_weeks_def is_datetime_def
        US_PER_DAY_def US_PER_HOUR_def US_PER_SECOND_def MAXORDINAL_def)
  show "historical_dates (mk_datetime 2025 3 4 0 0 0) (mk_datetime 2025 4 1 0 0 0) =
     Inr (mk_datetime 2024 3 5 0 0 0, mk_datetime 2024 4 2 0 0 0)"
    by code_simp
qed

theorem historical_dates_52_weeks_witness:
  "validate_dates iso_date (Str ''2025-03-04'') (Str ''2025-04-01'') =
     Inr (Naive (mk_datetime 2025 3 4 0 0 0), Naive (mk_datetime 2025 4 1 0 0 0)) \<and>
   historical_dates (mk_datetime 2025 3 4 0 0 0) (mk_datetime 2025 4 1 0 0 0) =
     Inr (mk_datetime 2025 3 4 0 0 0 - 364 * US_PER_DAY, mk_datetime 2025 4 1 0 0 0 - 364 * US_PER_DAY) \<and>
   iso_date ''2024-03-05'' = Some (Naive (mk_datetime 2025 3 4 0 0 0 - 364 * US_PER_DAY)) \<and>
   iso_date ''2024-04-02'' = Some (Naive (mk_datetime 2025 4 1 0 0 0 - 364 * US_PER_DAY))"
proof -
  have h: "mk_datetime 2025 3 4 0 0 0 < mk_datetime 2025 4 1 0 0 0 \<and>
      is_datetime (mk_datetime 2025 4 1 0 0 0) \<and> 364 * US_PER_DAY \<le> mk_datetime 2025 3 4 0 0 0"
    by code_simp
  have v: "validate_dates iso_date (Str ''2025-03-04'') (Str ''2025-04-01'') =
     Inr (Naive (mk_datetime 2025 3 4 0 0 0), Naive (mk_datetime 2025 4 1 0 0 0))"
    by code_simp
  have p: "iso_date ''2024-03-05'' = Some (Naive (mk_datetime 2025 3 4 0 0 0 - 364 * US_PER_DAY)) \<and>
   iso_date ''2024-04-02'' = Some (Naive (mk_datetime 2025 4 1 0 0 0 - 364 * US_PER_DAY))"
    by code_simp
  from historical_dates_52_weeks [of "mk_datetime 2025 3 4 0 0 0" "mk_datetime 2025 4 1 0 0 0"] h
  have "historical_dates (mk_datetime 2025 3 4 0 0 0) (mk_datetime 2025 4 1 0 0 0) =
     Inr (mk_datetime 2025 3 4 0 0 0 - 364 * US_PER_DAY, mk_datetime 2025 4 1 0 0 0 - 364 * US_PER_DAY)"
    by blast
  with v p show ?thesis by simp
qed

text \<open>
  Claim C3 does not hold of the source. When both historical bounds fall in March 2024, only the
  lower bound is applied to the loaded table: for the window from 2025-03-10 to 2025-03-12,
  a ride of 2024-03-20 is returned, relabelled 2025-03-19, after \<open>to_date\<close>.
\<close>

theorem upper_bound_missing_in_one_month_branch:
  "fetch_batch_raw_data iso_date march_2024_loader (Str ''2025-03-10'') (Str ''2025-03-12'') () =
     (Inr [\<lparr>pickup_datetime = mk_datetime 2025 3 11 8 30 0, pickup_location_id = 7\<rparr>,
           \<lparr>pickup_datetime = mk_datetime 2025 3 19 8 30 0, pickup_location_id = 7\<rparr>], ()) \<and>
   historical_dates (mk_datetime 2025 3 10 0 0 0) (mk_datetime 2025 3 12 0 0 0) =
     Inr (mk_datetime 2024 3 11 0 0 0, mk_datetime 2024 3 13 0 0 0) \<and>
   year (mk_datetime 2024 3 11 0 0 0) = year (mk_datetime 2024 3 13 0 0 0) \<and>
   month (mk_datetime 2024 3 11 0 0 0) = month (mk_datetime 2024 3 13 0 0 0) \<and>
   mk_datetime 2025 3 12 0 0 0 \<le> mk_datetime 2025 3 19 8 30 0"
  by code_simp

section \<open>The lower bound of the window\<close>

lemma load_historical_rides_lower:
  assumes "load_historical_rides load hf ht w = (Inr loaded, w')"
    and "hf < ht"
    and "\<forall>y months w0 rs w1. load y months w0 = (Inr rs, w1) \<longrightarrow>
           (\<forall>r \<in> set rs. year (pickup_datetime r) = y \<and> month (pickup_datetime r) \<in> set months)"
    and "r \<in> set loaded"
  shows "hf \<le> pickup_datetime r"
proof -
  obtain res1 w1 where l1: "load (year hf) [month hf] w = (res1, w1)" by force
  show ?thesis
  proof (cases res1)
    case (Inl e)
    with assms(1) l1 show ?thesis by (simp add: load_historical_rides_def)
  next
    case (Inr loaded_from)
    show ?thesis
    proof (cases "month ht \<noteq> month hf")
      case False
      with assms(1,4) l1 Inr show ?thesis
        by (auto simp: load_historical_rides_def)
    next
      case True
      obtain res2 w2 where l2: "load (year ht) [month ht] w1 = (res2, w2)" by force
      show ?thesis
      proof (cases res2)
        case (Inl e)
        with assms(1) l1 l2 True \<open>res1 = Inr loaded_from\<close> show ?thesis
          by (simp add: load_historical_rides_def)
      next
        case (Inr loaded_to)
        with assms(1) l1 l2 True \<open>res1 = Inr loaded_from\<close>
        have "loaded = filter (\<lambda>r. pickup_datetime r \<ge> hf) loaded_from @
                       filter (\<lambda>r. pickup_datetime r < ht) loaded_to"
          by (simp add: load_historical_rides_def)
        with assms(4) consider "r \<in> set loaded_from" "hf \<le> pickup_datetime r" | "r \<in> set loaded_to"
          by auto
        then show ?thesis
        proof cases
          case 1
          then show ?thesis by simp
        next
          case 2
          from assms(3) l2 Inr 2 have "year (pickup_datetime r) = year ht"
            and "month (pickup_datetime r) = month ht"
            by fastforce+
          with assms(2) True show ?thesis by (intro later_month_after)
        qed
      qed
    qed
  qed
qed

text \<open>
  Claim C10. When the loader returns only rides of the year and month it is asked for, every
  ride of a returned table has a timestamp at or after \<open>from_date\<close> (as parsed): the table of
  the first month is cut below at the historical lower bound, and the table of a second,
  different month lies wholly after it.
\<close>

theorem lower_bound_enforced:
  assumes "fetch_batch_raw_data fi load from_date to_date w = (Inr rides, w')"
    and "\<forall>y months w0 rs w1. load y months w0 = (Inr rs, w1) \<longrightarrow>
           (\<forall>r \<in> set rs. year (pickup_datetime r) = y \<and> month (pickup_datetime r) \<in> set months)"
  shows "\<exists>f t. validate_dates fi from_date to_date = Inr (Naive f, Naive t) \<and>
           (\<forall>r \<in> set rides. f \<le> pickup_datetime r)"
proof -
  from fetch_Inr [OF assms(1)] obtain f t hf ht loaded where
    v: "validate_dates fi from_date to_date = Inr (Naive f, Naive t)" and
    h: "historical_dates f t = Inr (hf, ht)" and
    l: "load_historical_rides load hf ht w = (Inr loaded, w')" and
    r: "rides = sort_values (shift_forward loaded)"
    by blast
  from v have "f < t" by (rule validate_dates_Inr)
  moreover from h have hf: "hf = f - timedelta_weeks 52" and "ht = t - timedelta_weeks 52"
    by (simp_all add: historical_dates_Inr)
  ultimately have "hf < ht" by simp
  have "\<forall>r \<in> set rides. f \<le> pickup_datetime r"
  proof
    fix x assume "x \<in> set rides"
    then have "x \<in> set (shift_forward loaded)"
      by (simp add: r sort_values_def)
    then obtain x0 where x0: "x0 \<in> set loaded"
      and x: "x = x0\<lparr>pickup_datetime := pickup_datetime x0 + timedelta_weeks 52\<rparr>"
      by (auto simp: shift_forward_def)
    from load_historical_rides_lower [OF l \<open>hf < ht\<close> assms(2) x0]
    have "hf \<le> pickup_datetime x0" .
    with hf x show "f \<le> pickup_datetime x" by simp
  qed
  with v show ?thesis by blast
qed


theorem lower_bound_enforced_witness:
  "fetch_batch_raw_data iso_date spring_2024_loader (Str ''2025-03-04'') (Str ''2025-04-01'') () =
     (Inr [\<lparr>pickup_datetime = mk_datetime 2025 3 31 12 0 0, pickup_location_id = 3\<rparr>,
           \<lparr>pickup_datetime = mk_datetime 2025 3 19 8 30 0, pickup_location_id = 7\<rparr>], ()) \<and>
   mk_datetime 2025 3 4 0 0 0 \<le> mk_datetime 2025 3 31 12 0 0 \<and>
   mk_datetime 2025 3 4 0 0 0 \<le> mk_datetime 2025 3 19 8 30 0"
proof -
  have run: "fetch_batch_raw_data iso_date spring_2024_loader (Str ''2025-03-04'') (Str ''2025-04-01'') () =
     (Inr [\<lparr>pickup_datetime = mk_datetime 2025 3 31 12 0 0, pickup_location_id = 3\<rparr>,
           \<lparr>pickup_datetime = mk_datetime 2025 3 19 8 30 0, pickup_location_id = 7\<rparr>], ())"
    by code_simp
  have ym: "year (mk_datetime 2024 3 4 23 59 59) = 2024 \<and> month (mk_datetime 2024 3 4 23 59 59) = 3 \<and>
      year (mk_datetime 2024 3 20 8 30 0) = 2024 \<and> month (mk_datetime 2024 3 20 8 30 0) = 3 \<and>
      year (mk_datetime 2024 4 1 12 0 0) = 2024 \<and> month (mk_datetime 2024 4 1 12 0 0) = 4 \<and>
      year (mk_datetime 2024 4 20 12 0 0) = 2024 \<and> month (mk_datetime 2024 4 20 12 0 0) = 4"
    by code_simp
  have loader: "\<forall>y months w0 rs w1. spring_2024_loader y months w0 = (Inr rs, w1) \<longrightarrow>
           (\<forall>r \<in> set rs. year (pickup_datetime r) = y \<and> month (pickup_datetime r) \<in> set months)"
    using ym by (auto simp: spring_2024_loader_def split: if_splits)
  have v: "validate_dates iso_date (Str ''2025-03-04'') (Str ''2025-04-01'') =
      Inr (Naive (mk_datetime 2025 3 4 0 0 0), Naive (mk_datetime 2025 4 1 0 0 0))"
    by code_simp
  from lower_bound_enforced [OF run loader] v
  have "mk_datetime 2025 3 4 0 0 0 \<le> mk_datetime 2025 3 31 12 0 0 \<and>
        mk_datetime 2025 3 4 0 0 0 \<le> mk_datetime 2025 3 19 8 30 0"
    by auto
  with run show ?thesis by simp
qed

section \<open>The aggregated series\<close>

lemma US_PER_HOUR_pos: "0 < US_PER_HOUR"
  by (simp add: US_PER_HOUR_def US_PER_SECOND_def)

lemma foldl_count:
  "foldl (\<lambda>counts k. counts(k \<mapsto> (case counts k of None \<Rightarrow> 1 | Some c \<Rightarrow> Suc c))) m ks k =
     (if k \<in> set ks then Some (count_list ks k + (case m k of None \<Rightarrow> 0 | Some c \<Rightarrow> c)) else m k)"
  by (induction ks arbitrary: m) (auto split: option.splits)

lemma count_events_lookup:
  "(case count_events keys k of None \<Rightarrow> 0 | Some c \<Rightarrow> c) = count_list keys k"
  by (simp add: count_events_def foldl_count count_list_0_iff)

lemma count_list_map_filter:
  "count_list (map f xs) y = length (filter (\<lambda>x. f x = y) xs)"
  by (induction xs) auto

lemma floor_hour_mono: "a \<le> b \<Longrightarrow> floor_hour a \<le> floor_hour b"
  using US_PER_HOUR_pos by (simp add: floor_hour_def zdiv_mono1)

lemma floor_hour_diff_dvd: "US_PER_HOUR dvd (floor_hour a - floor_hour b)"
  by (simp add: floor_hour_def)

lemma le_div_hour_iff: "k \<le> x div US_PER_HOUR \<longleftrightarrow> k * US_PER_HOUR \<le> x"
proof
  assume "k \<le> x div US_PER_HOUR"
  then have "k * US_PER_HOUR \<le> (x div US_PER_HOUR) * US_PER_HOUR"
    using US_PER_HOUR_pos by (simp add: mult_right_mono)
  also have "\<dots> = x - x mod US_PER_HOUR"
    by (simp add: minus_mod_eq_div_mult)
  also have "\<dots> \<le> x"
    using US_PER_HOUR_pos by simp
  finally show "k * US_PER_HOUR \<le> x" .
next
  assume "k * US_PER_HOUR \<le> x"
  then have "(k * US_PER_HOUR) div US_PER_HOUR \<le> x div US_PER_HOUR"
    using US_PER_HOUR_pos by (rule zdiv_mono1)
  then show "k \<le> x div US_PER_HOUR"
    using US_PER_HOUR_pos by simp
qed

lemma set_hours_between:
  "set (hours_between lo hi) = {h. lo \<le> h \<and> h \<le> hi \<and> US_PER_HOUR dvd (h - lo)}"
proof (intro set_eqI iffI)
  fix h assume "h \<in> set (hours_between lo hi)"
  then obtain k where k: "0 \<le> k" "k \<le> (hi - lo) div US_PER_HOUR" "h = lo + k * US_PER_HOUR"
    by (auto simp: hours_between_def)
  from k(2) have "k * US_PER_HOUR \<le> hi - lo"
    by (simp add: le_div_hour_iff)
  moreover from k(1) have "0 \<le> k * US_PER_HOUR"
    using US_PER_HOUR_pos by simp
  ultimately show "h \<in> {h. lo \<le> h \<and> h \<le> hi \<and> US_PER_HOUR dvd (h - lo)}"
    using k(3) by simp
next
  fix h assume "h \<in> {h. lo \<le> h \<and> h \<le> hi \<and> US_PER_HOUR dvd (h - lo)}"
  then have a: "lo \<le> h" "h \<le> hi" and "US_PER_HOUR dvd (h - lo)" by auto
  then obtain k where k: "h - lo = k * US_PER_HOUR"
    by (auto simp: dvd_def mult.commute)
  with a(1) have "0 \<le> k * US_PER_HOUR" by simp
  then have k0: "0 \<le> k"
    using US_PER_HOUR_pos by (simp add: zero_le_mult_iff)
  from a(2) k have "k * US_PER_HOUR \<le> hi - lo" by simp
  then have k1: "k \<le> (hi - lo) div US_PER_HOUR"
    by (simp add: le_div_hour_iff)
  have "h = lo + k * US_PER_HOUR" using k by simp
  with k0 k1 show "h \<in> set (hours_between lo hi)"
    by (auto simp: hours_between_def)
qed

lemma distinct_hours_between: "distinct (hours_between lo hi)"
  using US_PER_HOUR_pos by (auto simp: hours_between_def distinct_map inj_on_def)


lemma aggregate_events_nonempty:
  "events \<noteq> [] \<Longrightarrow>
   aggregate_events events =
     sort_key (\<lambda>r. (location_id r, hour r))
       (map (\<lambda>k. \<lparr>hour = fst k, location_id = snd k,
                   count_rides = count_list (map bucket_key events) k\<rparr>) (output_index events))"
  by (simp add: aggregate_events_def count_events_lookup case_prod_unfold)

lemma distinct_output_index: "distinct (output_index events)"
  by (simp add: output_index_def locations_def distinct_product distinct_hours_between)

lemma set_output_index:
  "set (output_index events) =
     {h. min_hour events \<le> h \<and> h \<le> max_hour events \<and> US_PER_HOUR dvd (h - min_hour events)}
       \<times> pickup_location_id ` set events"
  by (simp add: output_index_def locations_def set_hours_between)

lemma bucket_key_in_index:
  assumes "e \<in> set events"
  shows "bucket_key e \<in> set (output_index events)"
proof -
  let ?ts = "set (map pickup_datetime events)"
  have fin: "finite ?ts" by simp
  have "pickup_datetime e \<in> ?ts" using assms by simp
  then have "Min ?ts \<le> pickup_datetime e" and "pickup_datetime e \<le> Max ?ts"
    using fin by (simp_all del: set_map)
  then have "min_hour events \<le> floor_hour (pickup_datetime e)"
    and "floor_hour (pickup_datetime e) \<le> max_hour events"
    unfolding min_hour_def max_hour_def by (simp_all add: floor_hour_mono del: set_map)
  moreover have "US_PER_HOUR dvd (floor_hour (pickup_datetime e) - min_hour events)"
    unfolding min_hour_def by (rule floor_hour_diff_dvd)
  ultimately show ?thesis
    using assms by (simp add: set_output_index bucket_key_def)
qed

lemma keys_of_rows:
  "map (\<lambda>r. (hour r, location_id r))
     (map (\<lambda>k. \<lparr>hour = fst k, location_id = snd k, count_rides = c k\<rparr>) ks) = ks"
  by (induction ks) auto

lemma counts_of_rows:
  "map count_rides (map (\<lambda>k. \<lparr>hour = fst k, location_id = snd k, count_rides = c k\<rparr>) ks) = map c ks"
  by simp

lemma sum_counts_index:
  "sum_list (map (count_list (map bucket_key events)) (output_index events)) = length events"
proof -
  have "sum_list (map (count_list (map bucket_key events)) (output_index events)) =
      sum (count_list (map bucket_key events)) (set (output_index events))"
    by (rule sum_list_distinct_conv_sum_set [OF distinct_output_index])
  also have "\<dots> = length (map bucket_key events)"
    by (rule sum_count_set) (auto simp: bucket_key_in_index)
  finally show ?thesis by simp
qed

text \<open>
  Claim C1. For a table with at least one event, the output has exactly one row for each pair
  of an hour and a location, the hours being those from the floor of the minimum timestamp
  to the floor of the maximum timestamp in steps of one hour, the locations those of the
  input; the rows are sorted ascending on \<open>(location_id, hour)\<close>, and each row counts the events
  of its bucket, so a pair without events has count 0.
\<close>

theorem dense_sorted_grid:
  assumes "events_of tbl = Inr events" and "events \<noteq> []"
  shows "\<exists>out. transform_raw_data_into_ts_data tbl = Inr out \<and>
     distinct (map (\<lambda>r. (hour r, location_id r)) out) \<and>
     set (map (\<lambda>r. (hour r, location_id r)) out) =
       {h. floor_hour (Min (pickup_datetime ` set events)) \<le> h \<and>
           h \<le> floor_hour (Max (pickup_datetime ` set events)) \<and>
           US_PER_HOUR dvd (h - floor_hour (Min (pickup_datetime ` set events)))}
         \<times> pickup_location_id ` set events \<and>
     sorted (map (\<lambda>r. (location_id r, hour r)) out) \<and>
     (\<forall>r \<in> set out. count_rides r =
        length (filter (\<lambda>e. floor_hour (pickup_datetime e) = hour r \<and>
                             pickup_location_id e = location_id r) events))"
proof -
  let ?rows = "map (\<lambda>k. \<lparr>hour = fst k, location_id = snd k,
                   count_rides = count_list (map bucket_key events) k\<rparr>) (output_index events)"
  let ?out = "sort_key (\<lambda>r. (location_id r, hour r)) ?rows"
  have out: "transform_raw_data_into_ts_data tbl = Inr ?out"
    using assms by (simp add: transform_raw_data_into_ts_data_def aggregate_events_nonempty)
  have "mset (map (\<lambda>r. (hour r, location_id r)) ?out) =
      mset (map (\<lambda>r. (hour r, location_id r)) ?rows)"
    by (simp only: mset_map mset_sort)
  also have "map (\<lambda>r. (hour r, location_id r)) ?rows = output_index events"
    by (rule keys_of_rows)
  finally have m: "mset (map (\<lambda>r. (hour r, location_id r)) ?out) = mset (output_index events)" .
  have d: "distinct (map (\<lambda>r. (hour r, location_id r)) ?out)"
    using mset_eq_imp_distinct_iff [OF m] distinct_output_index by simp
  have "set (map (\<lambda>r. (hour r, location_id r)) ?out) = set (output_index events)"
    using m by (rule mset_eq_setD)
  then have s: "set (map (\<lambda>r. (hour r, location_id r)) ?out) =
       {h. floor_hour (Min (pickup_datetime ` set events)) \<le> h \<and>
           h \<le> floor_hour (Max (pickup_datetime ` set events)) \<and>
           US_PER_HOUR dvd (h - floor_hour (Min (pickup_datetime ` set events)))}
         \<times> pickup_location_id ` set events"
    by (simp add: set_output_index min_hour_def max_hour_def)
  have o: "sorted (map (\<lambda>r. (location_id r, hour r)) ?out)"
    by (rule sorted_sort_key)
  have c: "\<forall>r \<in> set ?out. count_rides r =
        length (filter (\<lambda>e. floor_hour (pickup_datetime e) = hour r \<and>
                             pickup_location_id e = location_id r) events)"
    by (auto simp: count_list_map_filter bucket_key_def)
  from out d s o c show ?thesis by blast
qed

theorem dense_sorted_grid_witness:
  "transform_raw_data_into_ts_data example_table =
     Inr [\<lparr>hour = mk_datetime 2025 2 4 6 0 0, location_id = 3, count_rides = 2\<rparr>,
          \<lparr>hour = mk_datetime 2025 2 4 7 0 0, location_id = 3, count_rides = 0\<rparr>,
          \<lparr>hour = mk_datetime 2025 2 4 6 0 0, location_id = 5, count_rides = 0\<rparr>,
          \<lparr>hour = mk_datetime 2025 2 4 7 0 0, location_id = 5, count_rides = 1\<rparr>] \<and>
   distinct [(mk_datetime 2025 2 4 6 0 0, 3::int), (mk_datetime 2025 2 4 7 0 0, 3),
             (mk_datetime 2025 2 4 6 0 0, 5), (mk_datetime 2025 2 4 7 0 0, 5)] \<and>
   sorted [(3::int, mk_datetime 2025 2 4 6 0 0), (3, mk_datetime 2025 2 4 7 0 0),
           (5, mk_datetime 2025 2 4 6 0 0), (5, mk_datetime 2025 2 4 7 0 0)]"
proof -
  let ?events = "[\<lparr>pickup_datetime = mk_datetime 2025 2 4 6 8 40, pickup_location_id = 3\<rparr>,
                  \<lparr>pickup_datetime = mk_datetime 2025 2 4 6 47 0, pickup_location_id = 3\<rparr>,
                  \<lparr>pickup_datetime = mk_datetime 2025 2 4 7 15 0, pickup_location_id = 5\<rparr>]"
  let ?out = "[\<lparr>hour = mk_datetime 2025 2 4 6 0 0, location_id = 3, count_rides = 2\<rparr>,
          \<lparr>hour = mk_datetime 2025 2 4 7 0 0, location_id = 3, count_rides = 0\<rparr>,
          \<lparr>hour = mk_datetime 2025 2 4 6 0 0, location_id = 5, count_rides = 0\<rparr>,
          \<lparr>hour = mk_datetime 2025 2 4 7 0 0, location_id = 5, count_rides = 1\<rparr>]"
  have e: "events_of example_table = Inr ?events" by code_simp
  have n: "?events \<noteq> []" by simp
  have r: "transform_raw_data_into_ts_data example_table = Inr ?out" by code_simp
  from dense_sorted_grid [OF e n] r
  have "distinct (map (\<lambda>r. (hour r, location_id r)) ?out)"
    and "sorted (map (\<lambda>r. (location_id r, hour r)) ?out)"
    by auto
  with r show ?thesis by simp
qed

text \<open>
  Claim C2. The counts of the output rows add up to the number of input events; an event
  that occurs twice counts twice.
\<close>

theorem counts_conserved:
  assumes "events_of tbl = Inr events"
  shows "\<exists>out. transform_raw_data_into_ts_data tbl = Inr out \<and>
     sum_list (map count_rides out) = length events"
proof (cases "events = []")
  case True
  with assms show ?thesis
    by (simp add: transform_raw_data_into_ts_data_def aggregate_events_def)
next
  case False
  let ?rows = "map (\<lambda>k. \<lparr>hour = fst k, location_id = snd k,
                   count_rides = count_list (map bucket_key events) k\<rparr>) (output_index events)"
  let ?out = "sort_key (\<lambda>r. (location_id r, hour r)) ?rows"
  have out: "transform_raw_data_into_ts_data tbl = Inr ?out"
    using assms False by (simp add: transform_raw_data_into_ts_data_def aggregate_events_nonempty)
  have "sum_list (map count_rides ?out) = sum_mset (image_mset count_rides (mset ?out))"
    by (simp only: sum_mset_sum_list flip: mset_map)
  also have "\<dots> = sum_mset (image_mset count_rides (mset ?rows))"
    by (simp only: mset_sort)
  also have "\<dots> = sum_list (map count_rides ?rows)"
    by (simp only: sum_mset_sum_list flip: mset_map)
  also have "\<dots> = sum_list (map (count_list (map bucket_key events)) (output_index events))"
    by (simp only: counts_of_rows)
  also have "\<dots> = length events"
    by (rule sum_counts_index)
  finally have "sum_list (map count_rides ?out) = length events" .
  with out show ?thesis by blast
qed

theorem counts_conserved_witness:
  "transform_raw_data_into_ts_data duplicate_table =
     Inr [\<lparr>hour = mk_datetime 2025 2 4 6 0 0, location_id = 3, count_rides = 2\<rparr>,
          \<lparr>hour = mk_datetime 2025 2 4 7 0 0, location_id = 3, count_rides = 0\<rparr>,
          \<lparr>hour = mk_datetime 2025 2 4 8 0 0, location_id = 3, count_rides = 0\<rparr>,
          \<lparr>hour = mk_datetime 2025 2 4 9 0 0, location_id = 3, count_rides = 0\<rparr>,
          \<lparr>hour = mk_datetime 2025 2 4 6 0 0, location_id = 5, count_rides = 0\<rparr>,
          \<lparr>hour = mk_datetime 2025 2 4 7 0 0, location_id = 5, count_rides = 0\<rparr>,
          \<lparr>hour = mk_datetime 2025 2 4 8 0 0, location_id = 5, count_rides = 0\<rparr>,
          \<lparr>hour = mk_datetime 2025 2 4 9 0 0, location_id = 5, count_rides = 1\<rparr>] \<and>
   sum_list (map count_rides
        [\<lparr>hour = mk_datetime 2025 2 4 6 0 0, location_id = 3, count_rides = 2\<rparr>,
          \<lparr>hour = mk_datetime 2025 2 4 7 0 0, location_id = 3, count_rides = 0\<rparr>,
          \<lparr>hour = mk_datetime 2025 2 4 8 0 0, location_id = 3, count_rides = 0\<rparr>,
          \<lparr>hour = mk_datetime 2025 2 4 9 0 0, location_id = 3, count_rides = 0\<rparr>,
          \<lparr>hour = mk_datetime 2025 2 4 6 0 0, location_id = 5, count_rides = 0\<rparr>,
          \<lparr>hour = mk_datetime 2025 2 4 7 0 0, location_id = 5, count_rides = 0\<rparr>,
          \<lparr>hour = mk_datetime 2025 2 4 8 0 0, location_id = 5, count_rides = 0\<rparr>,
          \<lparr>hour = mk_datetime 2025 2 4 9 0 0, location_id = 5, count_rides = 1\<rparr>]) = 3"
proof -
  let ?events = "[\<lparr>pickup_datetime = mk_datetime 2025 2 4 6 8 40, pickup_location_id = 3\<rparr>,
                  \<lparr>pickup_datetime = mk_datetime 2025 2 4 9 15 0, pickup_location_id = 5\<rparr>,
                  \<lparr>pickup_datetime = mk_datetime 2025 2 4 6 8 40, pickup_location_id = 3\<rparr>]"
  have e: "events_of duplicate_table = Inr ?events" by code_simp
  have r: "transform_raw_data_into_ts_data duplicate_table =
     Inr [\<lparr>hour = mk_datetime 2025 2 4 6 0 0, location_id = 3, count_rides = 2\<rparr>,
          \<lparr>hour = mk_datetime 2025 2 4 7 0 0, location_id = 3, count_rides = 0\<rparr>,
          \<lparr>hour = mk_datetime 2025 2 4 8 0 0, location_id = 3, count_rides = 0\<rparr>,
          \<lparr>hour = mk_datetime 2025 2 4 9 0 0, location_id = 3, count_rides = 0\<rparr>,
          \<lparr>hour = mk_datetime 2025 2 4 6 0 0, location_id = 5, count_rides = 0\<rparr>,
          \<lparr>hour = mk_datetime 2025 2 4 7 0 0, location_id = 5, count_rides = 0\<rparr>,
          \<lparr>hour = mk_datetime 2025 2 4 8 0 0, location_id = 5, count_rides = 0\<rparr>,
          \<lparr>hour = mk_datetime 2025 2 4 9 0 0, location_id = 5, count_rides = 1\<rparr>]"
    by code_simp
  from counts_conserved [OF e] r show ?thesis by auto
qed

text \<open>
  Claim C8. The table without rows gives the empty series and no error; the aggregation fails
  only with \<open>InvalidArgument\<close>, and exactly when the timestamp or the location field is
  missing.
\<close>

theorem empty_input_and_failure_modes:
  "transform_raw_data_into_ts_data \<lparr>timestamp_column = Some [], location_column = Some []\<rparr> = Inr [] \<and>
   (case transform_raw_data_into_ts_data tbl of
      Inl e \<Rightarrow> e = InvalidArgument \<and> (timestamp_column tbl = None \<or> location_column tbl = None)
    | Inr out \<Rightarrow> timestamp_column tbl \<noteq> None \<and> location_column tbl \<noteq> None)"
  by (auto simp: transform_raw_data_into_ts_data_def events_of_def aggregate_events_def
      split: option.splits sum.splits)

end
